theory Spec2Isabelle
  imports Complex_Main "HOL-Library.Char_ord" "HOL-Library.List_Lexorder"
begin

section \<open>Python helpers\<close>

text \<open>
  Audio samples are float32 values; the orchestrator never inspects them, so a sample is
  modelled as a rational number. Python floats that are times or durations are rationals
  too, with exact arithmetic (rounding of float operations is not modelled).
\<close>

type_synonym sample = rat

text \<open>Python's \<^verbatim>\<open>int(x)\<close> on a float: truncation towards zero.\<close>

definition py_int :: "rat \<Rightarrow> int" where
  "py_int x = (if x < 0 then - \<lfloor>- x\<rfloor> else \<lfloor>x\<rfloor>)"

text \<open>
  Python's slice \<^verbatim>\<open>xs[i:]\<close>: a negative start counts from the end and is clamped at 0,
  a start beyond the end gives the empty list.
\<close>

definition py_slice_from :: "'a list \<Rightarrow> int \<Rightarrow> 'a list" where
  "py_slice_from xs i =
     (if i < 0 then drop (nat (max 0 (int (length xs) + i))) xs else drop (nat i) xs)"

section \<open>ClientSession (main.py)\<close>

datatype task_status = Pending | CancelRequested | Finished

text \<open>\<^verbatim>\<open>task.done()\<close> and \<^verbatim>\<open>task.cancel()\<close> of an asyncio task.\<close>

definition task_done :: "task_status \<Rightarrow> bool" where
  "task_done t = (t = Finished)"

definition task_cancel :: "task_status \<Rightarrow> task_status" where
  "task_cancel t = (if t = Finished then Finished else CancelRequested)"

type_synonym engine_ref = nat

text \<open>
  The fields of \<^verbatim>\<open>ClientSession.__init__\<close>. The back reference to the server, the
  asyncio lock and the settings dictionary are left out: handlers are atomic transitions
  here and take the server state as an argument.
\<close>

record session =
  websocket :: nat
  is_recording :: bool
  audio_chunks :: "sample list list"
  total_samples :: int
  continuous_mode :: bool
  last_partial_text :: string
  last_log_second :: int
  active_engine :: "engine_ref option"
  active_model :: "string option"
  has_done_first_interval :: bool
  diarization_enabled :: bool
  audio_watchdog_task :: "task_status option"
  first_audio_received :: bool

definition new_session :: "nat \<Rightarrow> session" where
  "new_session ws =
     \<lparr> websocket = ws, is_recording = False, audio_chunks = [], total_samples = 0,
       continuous_mode = False, last_partial_text = [], last_log_second = 0,
       active_engine = None, active_model = None, has_done_first_interval = False,
       diarization_enabled = False, audio_watchdog_task = None,
       first_audio_received = False \<rparr>"

definition MAX_BUFFER_SECONDS :: int where
  "MAX_BUFFER_SECONDS = 300"

definition MAX_BUFFER_SAMPLES :: int where
  "MAX_BUFFER_SAMPLES = 16000 * MAX_BUFFER_SECONDS"

definition add_audio :: "sample list \<Rightarrow> session \<Rightarrow> bool \<times> session" where
  "add_audio audio_samples s =
     (let new_total = total_samples s + int (length audio_samples) in
      if new_total > MAX_BUFFER_SAMPLES then (False, s)
      else (True, s\<lparr>audio_chunks := audio_chunks s @ [audio_samples],
                      total_samples := new_total\<rparr>))"

definition get_audio_array :: "session \<Rightarrow> sample list" where
  "get_audio_array s = (if audio_chunks s = [] then [] else concat (audio_chunks s))"

definition clear_audio :: "session \<Rightarrow> session" where
  "clear_audio s = s\<lparr>audio_chunks := [], total_samples := 0\<rparr>"

definition keep_audio_tail :: "rat \<Rightarrow> session \<Rightarrow> session" where
  "keep_audio_tail seconds s =
     (let samples_to_keep = py_int (16000 * seconds) in
      if total_samples s \<le> samples_to_keep then s
      else
        let full_audio = get_audio_array s;
            tail_audio = py_slice_from full_audio (- samples_to_keep)
        in s\<lparr>audio_chunks := [tail_audio], total_samples := int (length tail_audio)\<rparr>)"

definition get_buffer_seconds :: "session \<Rightarrow> rat" where
  "get_buffer_seconds s = of_int (total_samples s) / 16000"

subsection \<open>Sequences of buffer operations\<close>

text \<open>A run of \<^verbatim>\<open>add_audio\<close> calls, with the boolean each call returned.\<close>

fun add_all :: "sample list list \<Rightarrow> session \<Rightarrow> bool list \<times> session" where
  "add_all [] s = ([], s)"
| "add_all (c # cs) s =
     (let (ok, s') = add_audio c s; (oks, s'') = add_all cs s' in (ok # oks, s''))"

text \<open>The chunks of a run that were accepted.\<close>

definition accepted :: "sample list list \<Rightarrow> bool list \<Rightarrow> sample list list" where
  "accepted cs oks = map fst (filter snd (zip cs oks))"

definition remaining_capacity :: "session \<Rightarrow> int" where
  "remaining_capacity s = MAX_BUFFER_SAMPLES - total_samples s"

datatype buffer_op = AddAudio "sample list" | ClearAudio | KeepAudioTail rat

fun apply_buffer_op :: "buffer_op \<Rightarrow> session \<Rightarrow> session" where
  "apply_buffer_op (AddAudio c) s = snd (add_audio c s)"
| "apply_buffer_op ClearAudio s = clear_audio s"
| "apply_buffer_op (KeepAudioTail seconds) s = keep_audio_tail seconds s"

definition run_buffer_ops :: "buffer_op list \<Rightarrow> session \<Rightarrow> session" where
  "run_buffer_ops ops s = foldl (\<lambda>s' p. apply_buffer_op p s') s ops"

text \<open>The class invariant: the counter is the number of stored samples.\<close>

definition buffer_consistent :: "session \<Rightarrow> bool" where
  "buffer_consistent s = (total_samples s = (\<Sum>a\<leftarrow>audio_chunks s. int (length a)))"

section \<open>Strings\<close>

text \<open>
  Python's \<^verbatim>\<open>str.strip()\<close>, for the ASCII whitespace characters (tab, line feed,
  vertical tab, form feed, carriage return, the four separators 28 to 31, and space).
\<close>

definition is_py_space :: "char \<Rightarrow> bool" where
  "is_py_space c = ((of_char c :: nat) \<in> {9, 10, 11, 12, 13, 28, 29, 30, 31, 32})"

definition py_strip :: "string \<Rightarrow> string" where
  "py_strip s = rev (dropWhile is_py_space (rev (dropWhile is_py_space s)))"

text \<open>\<^verbatim>\<open>sep.join(xs)\<close>.\<close>

fun py_join :: "string \<Rightarrow> string list \<Rightarrow> string" where
  "py_join sep [] = []"
| "py_join sep [x] = x"
| "py_join sep (x # y # ys) = x @ sep @ py_join sep (y # ys)"

text \<open>\<^verbatim>\<open>str(n)\<close> for a natural number: its decimal digits.\<close>

definition digit_char :: "nat \<Rightarrow> char" where
  "digit_char d = char_of (48 + d)"

function str_nat :: "nat \<Rightarrow> string" where
  "str_nat n = (if n < 10 then [digit_char n] else str_nat (n div 10) @ [digit_char (n mod 10)])"
  by pat_completeness auto
termination
  by (relation "measure id") auto

declare str_nat.simps [simp del]

section \<open>DiarizationEngine: the pure helpers (diarization_engine.py)\<close>

text \<open>
  A word dictionary \<^verbatim>\<open>{"word", "start", "end"}\<close> as the engines build it; the key
  \<^verbatim>\<open>"speaker"\<close> is absent (\<open>None\<close>) until diarization adds it.
\<close>

record word =
  word_text :: string
  word_start :: rat
  word_end :: rat
  speaker :: "string option"

record segment =
  seg_speaker :: string
  seg_start :: rat
  seg_end :: rat

text \<open>The inner loop over the segments, with its \<^verbatim>\<open>break\<close> at a midpoint hit.\<close>

fun assign_loop ::
  "rat \<Rightarrow> rat \<Rightarrow> rat \<Rightarrow> segment list \<Rightarrow> string option \<Rightarrow> rat \<Rightarrow> string option" where
  "assign_loop w_start w_end w_mid [] assigned_speaker max_overlap = assigned_speaker"
| "assign_loop w_start w_end w_mid (seg # segs) assigned_speaker max_overlap =
     (if seg_start seg \<le> w_mid \<and> w_mid \<le> seg_end seg then Some (seg_speaker seg)
      else
        let overlap_start = max w_start (seg_start seg);
            overlap_end = min w_end (seg_end seg);
            overlap = max 0 (overlap_end - overlap_start)
        in if overlap > max_overlap
           then assign_loop w_start w_end w_mid segs (Some (seg_speaker seg)) overlap
           else assign_loop w_start w_end w_mid segs assigned_speaker max_overlap)"

text \<open>\<^verbatim>\<open>assigned_speaker or "Unknown"\<close>: \<open>None\<close> and the empty string are falsy.\<close>

definition or_unknown :: "string option \<Rightarrow> string" where
  "or_unknown assigned_speaker =
     (case assigned_speaker of None \<Rightarrow> ''Unknown''
      | Some l \<Rightarrow> if l = [] then ''Unknown'' else l)"

definition assign_word :: "segment list \<Rightarrow> word \<Rightarrow> word" where
  "assign_word segments w =
     (let w_start = word_start w;
          w_end = word_end w;
          w_mid = (w_start + w_end) / 2
      in w\<lparr>speaker := Some (or_unknown (assign_loop w_start w_end w_mid segments None 0))\<rparr>)"

definition assign_speakers_to_words :: "word list \<Rightarrow> segment list \<Rightarrow> word list" where
  "assign_speakers_to_words words segments =
     (if segments = [] then words else map (assign_word segments) words)"

text \<open>
  \<^verbatim>\<open>format_speakers\<close>: \<^verbatim>\<open>sorted(set(speakers))\<close> enumerated from 1. The resulting
  dictionary is an association list in that order. Strings are compared as Python
  compares them: lexicographically, character by character.
\<close>

definition format_speakers :: "string list \<Rightarrow> (string \<times> string) list" where
  "format_speakers speakers =
     (let unique_speakers = sort (remdups speakers)
      in map (\<lambda>(i, label). (label, ''Speaker '' @ str_nat (i + 1)))
           (enumerate 0 unique_speakers))"

text \<open>
  What the specification asks of \<^verbatim>\<open>format_speakers\<close> instead: the distinct labels in
  the order of their first occurrence.
\<close>

fun first_seen :: "string list \<Rightarrow> string list" where
  "first_seen [] = []"
| "first_seen (x # xs) = x # filter (\<lambda>y. y \<noteq> x) (first_seen xs)"

definition spec_format_speakers :: "string list \<Rightarrow> (string \<times> string) list" where
  "spec_format_speakers speakers =
     (let unique_speakers = first_seen speakers
      in map (\<lambda>(i, label). (label, ''Speaker '' @ str_nat (i + 1)))
           (enumerate 0 unique_speakers))"



definition overlap_with :: "word \<Rightarrow> segment \<Rightarrow> rat" where
  "overlap_with w seg =
     max 0 (min (word_end w) (seg_end seg) - max (word_start w) (seg_start seg))"

text \<open>The first segment of a list whose overlap with the word is the largest one.\<close>

fun first_max_overlap :: "word \<Rightarrow> segment list \<Rightarrow> segment option" where
  "first_max_overlap w [] = None"
| "first_max_overlap w (seg # segs) =
     (case first_max_overlap w segs of
        None \<Rightarrow> Some seg
      | Some best \<Rightarrow> if overlap_with w best > overlap_with w seg then Some best else Some seg)"

section \<open>Engines (asr_engine.py, whisper_engine.py)\<close>

datatype engine_kind = ASREngine | WhisperEngine

text \<open>
  An engine object. \<open>model_present\<close> is \<^verbatim>\<open>self.model is not None\<close>; \<open>engine_model\<close> is
  the model the object was created for.
\<close>

record engine =
  kind :: engine_kind
  engine_model :: string
  model_present :: bool
  is_loaded :: bool
  session_active :: bool
  last_transcription :: string

definition new_engine :: "engine_kind \<Rightarrow> string \<Rightarrow> engine" where
  "new_engine k m =
     \<lparr> kind = k, engine_model = m, model_present = False, is_loaded = False,
       session_active = False, last_transcription = [] \<rparr>"

definition start_session :: "engine \<Rightarrow> engine" where
  "start_session e = e\<lparr>session_active := True, last_transcription := []\<rparr>"

definition end_session :: "engine \<Rightarrow> engine" where
  "end_session e = e\<lparr>session_active := False, last_transcription := []\<rparr>"

definition unload :: "engine \<Rightarrow> engine" where
  "unload e = (if model_present e then e\<lparr>model_present := False, is_loaded := False\<rparr> else e)"

text \<open>
  Only \<^verbatim>\<open>WhisperEngine\<close> defines \<^verbatim>\<open>transcribe_with_timestamps\<close>: this is the
  \<^verbatim>\<open>hasattr\<close> test of the interval handler.
\<close>

definition has_transcribe_with_timestamps :: "engine \<Rightarrow> bool" where
  "has_transcribe_with_timestamps e = (kind e = WhisperEngine)"

text \<open>
  The external collaborators. \<open>asr_text\<close> and \<open>asr_words\<close> are the results of the
  neural model behind \<^verbatim>\<open>_transcribe_sync\<close> and
  \<^verbatim>\<open>_transcribe_with_timestamps_sync\<close> (after their own exception handlers),
  \<open>diarize_segments\<close> is the result of the pyannote pipeline in \<^verbatim>\<open>diarize_sync\<close>;
  \<open>model_path\<close> is \<^verbatim>\<open>ModelManager.get_model_path()\<close>, \<open>load_ok\<close> tells whether
  \<^verbatim>\<open>engine.load_model()\<close> succeeds for a model.
\<close>

record env =
  asr_text :: "string \<Rightarrow> sample list \<Rightarrow> string"
  asr_words :: "string \<Rightarrow> sample list \<Rightarrow> word list"
  diarize_segments :: "sample list \<Rightarrow> segment list"
  model_path :: "string option"
  load_ok :: "string \<Rightarrow> bool"
  WHISPER_AVAILABLE :: bool

definition transcribe_final :: "env \<Rightarrow> engine \<Rightarrow> sample list \<Rightarrow> string" where
  "transcribe_final ev e audio =
     (if \<not> is_loaded e then []
      else if length audio < 1600 then []
      else if \<not> model_present e then []
      else asr_text ev (engine_model e) audio)"

definition transcribe_with_timestamps :: "env \<Rightarrow> engine \<Rightarrow> sample list \<Rightarrow> word list" where
  "transcribe_with_timestamps ev e audio =
     (if \<not> is_loaded e then []
      else if length audio < 1600 then []
      else if \<not> model_present e then []
      else asr_words ev (engine_model e) audio)"

section \<open>MuteServer (main.py)\<close>

text \<open>The key \<^verbatim>\<open>"model"\<close> of a \<^verbatim>\<open>final\<close> message: absent, or the session's model.\<close>

datatype model_field = NoModelKey | ModelKey "string option"

text \<open>
  The JSON messages the modelled handlers send. An interval transcription carries its
  text, the key \<^verbatim>\<open>"speakers"\<close> when present, and \<^verbatim>\<open>"is_final"\<close>.
\<close>

datatype message =
    Ready bool bool bool string "string list"
  | Final string int model_field
  | IntervalTranscription string "string list option" bool
  | ModelUnloaded string
  | ErrorMessage string

datatype engine_call =
    CallStartSession engine_ref
  | CallEndSession engine_ref
  | CallTranscribeFinal engine_ref
  | CallTranscribeWithTimestamps engine_ref
  | CallUnload engine_ref
  | CallDiarize

definition is_transcription_call :: "engine_call \<Rightarrow> bool" where
  "is_transcription_call c =
     (case c of CallTranscribeFinal _ \<Rightarrow> True | CallTranscribeWithTimestamps _ \<Rightarrow> True
      | CallDiarize \<Rightarrow> True | _ \<Rightarrow> False)"

text \<open>
  The server. \<open>engines\<close> is a Python dictionary, kept in insertion order; \<open>loaded_models\<close>
  and \<open>clients\<close> are Python sets, kept here as duplicate-free lists (Python does not
  specify their iteration order; the lists fix one). \<open>diarization_loaded\<close> is \<open>None\<close>
  while there is no diarization engine, and its \<^verbatim>\<open>is_loaded\<close> flag otherwise. Engine
  objects live in \<open>heap\<close> and are shared by reference between the server and the
  sessions. \<open>sent\<close> and \<open>calls\<close> record the messages sent to clients and the engine
  methods invoked.
\<close>

record server =
  engines :: "(string \<times> engine_ref) list"
  default_model :: string
  loaded_models :: "string list"
  clients :: "nat list"
  diarization_loaded :: "bool option"
  keep_warm_enabled :: bool
  keep_warm_models :: "string list"
  keep_warm_duration :: string
  last_inference_time :: "string \<rightharpoonup> rat"
  heap :: "engine_ref \<Rightarrow> engine"
  next_ref :: engine_ref
  sent :: "(nat \<times> message) list"
  calls :: "engine_call list"

definition MODEL_PARAKEET :: string where
  "MODEL_PARAKEET = ''parakeet''"

definition WHISPER_MODELS :: "string list" where
  "WHISPER_MODELS = [''base'', ''large-v3-turbo'']"

definition init_server :: server where
  "init_server =
     \<lparr> engines = [], default_model = MODEL_PARAKEET, loaded_models = [], clients = [],
       diarization_loaded = None, keep_warm_enabled = False, keep_warm_models = [],
       keep_warm_duration = ''4h'', last_inference_time = Map.empty,
       heap = (\<lambda>_. new_engine ASREngine []), next_ref = 0, sent = [], calls = [] \<rparr>"

text \<open>\<^verbatim>\<open>websocket.send\<close>; a failing send is not modelled.\<close>

definition send :: "nat \<Rightarrow> message \<Rightarrow> server \<Rightarrow> server" where
  "send ws m srv = srv\<lparr>sent := sent srv @ [(ws, m)]\<rparr>"

text \<open>Dictionary operations on \<open>engines\<close>: assignment, deletion, membership.\<close>

fun dict_set :: "'k \<Rightarrow> 'v \<Rightarrow> ('k \<times> 'v) list \<Rightarrow> ('k \<times> 'v) list" where
  "dict_set k v [] = [(k, v)]"
| "dict_set k v (p # ps) = (if fst p = k then (k, v) # ps else p # dict_set k v ps)"

definition dict_del :: "'k \<Rightarrow> ('k \<times> 'v) list \<Rightarrow> ('k \<times> 'v) list" where
  "dict_del k ps = filter (\<lambda>p. fst p \<noteq> k) ps"

definition set_add :: "'a \<Rightarrow> 'a list \<Rightarrow> 'a list" where
  "set_add x xs = (if x \<in> set xs then xs else xs @ [x])"

datatype load_error = NotDownloaded | WhisperNotInstalled | UnknownModel string | LoadFailed string

text \<open>
  \<^verbatim>\<open>load_model\<close>. A model that is already loaded is left alone. Every \<^verbatim>\<open>raise\<close> is
  an \<open>Inl\<close>, and leaves the server as it was.
\<close>

definition install_engine :: "engine_kind \<Rightarrow> string \<Rightarrow> server \<Rightarrow> server" where
  "install_engine k model_id srv =
     (let r = next_ref srv;
          e = (new_engine k model_id)\<lparr>model_present := True, is_loaded := True\<rparr>
      in srv\<lparr>heap := (heap srv)(r := e), next_ref := Suc r,
              engines := dict_set model_id r (engines srv),
              loaded_models := set_add model_id (loaded_models srv)\<rparr>)"

definition set_first_default :: "string \<Rightarrow> server \<Rightarrow> server" where
  "set_first_default model_id srv =
     (if default_model srv = MODEL_PARAKEET \<and> model_id \<in> set (loaded_models srv)
      then (if length (loaded_models srv) = 1 then srv\<lparr>default_model := model_id\<rparr> else srv)
      else srv)"

definition load_model :: "env \<Rightarrow> string \<Rightarrow> server \<Rightarrow> load_error + server" where
  "load_model ev model_id srv =
     (if model_id \<in> set (loaded_models srv) then Inr srv
      else if model_id = MODEL_PARAKEET then
        (case model_path ev of
           None \<Rightarrow> Inl NotDownloaded
         | Some path \<Rightarrow>
             if path = [] then Inl NotDownloaded
             else if \<not> load_ok ev model_id then Inl (LoadFailed model_id)
             else Inr (set_first_default model_id (install_engine ASREngine model_id srv)))
      else if model_id \<in> set WHISPER_MODELS then
        (if \<not> WHISPER_AVAILABLE ev then Inl WhisperNotInstalled
         else if \<not> load_ok ev model_id then Inl (LoadFailed model_id)
         else Inr (set_first_default model_id (install_engine WhisperEngine model_id srv)))
      else Inl (UnknownModel model_id))"

text \<open>\<^verbatim>\<open>for client in self.clients: await client.send(message)\<close>.\<close>

definition notify_all :: "message \<Rightarrow> server \<Rightarrow> server" where
  "notify_all m srv = srv\<lparr>sent := sent srv @ map (\<lambda>c. (c, m)) (clients srv)\<rparr>"

text \<open>
  \<^verbatim>\<open>_unload_model\<close>. A model without an engine returns at once, before the
  notification. \<^verbatim>\<open>next(iter(self.engines))\<close> is the first key of the dictionary.
  The \<^verbatim>\<open>unload\<close> methods of both engines raise nothing, so the \<^verbatim>\<open>except\<close>
  branch is not reached.
\<close>

definition unload_model :: "string \<Rightarrow> server \<Rightarrow> server" where
  "unload_model model_id srv =
     (case map_of (engines srv) model_id of
        None \<Rightarrow> srv
      | Some r \<Rightarrow>
          let srv1 = srv\<lparr>heap := (heap srv)(r := unload (heap srv r)),
                         calls := calls srv @ [CallUnload r]\<rparr>;
              srv2 = srv1\<lparr>engines := dict_del model_id (engines srv1),
                          loaded_models := removeAll model_id (loaded_models srv1),
                          last_inference_time := (last_inference_time srv1)(model_id := None)\<rparr>;
              srv3 = (if default_model srv2 = model_id
                      then (if engines srv2 \<noteq> []
                            then srv2\<lparr>default_model := fst (hd (engines srv2))\<rparr>
                            else srv2)
                      else srv2)
          in notify_all (ModelUnloaded model_id) srv3)"

text \<open>
  \<^verbatim>\<open>_get_duration_seconds\<close>: a number of seconds, or \<^verbatim>\<open>float('inf')\<close> (\<open>None\<close>).
  A duration that is not a key of the table gives the default, four hours.
\<close>

definition get_duration_seconds :: "string \<Rightarrow> int option" where
  "get_duration_seconds duration =
     (case map_of [(''1h'', Some 3600), (''4h'', Some 14400), (''8h'', Some 28800),
                   (''16h'', Some 57600), (''permanent'', None)] duration of
        Some v \<Rightarrow> v
      | None \<Rightarrow> Some 14400)"

definition idle_time :: "rat \<Rightarrow> server \<Rightarrow> string \<Rightarrow> rat" where
  "idle_time current_time srv model_id =
     (let last_used = (case last_inference_time srv model_id of
                         Some t \<Rightarrow> t | None \<Rightarrow> current_time)
      in current_time - last_used)"

text \<open>\<^verbatim>\<open>idle_time > duration_seconds\<close>, where the right-hand side may be infinite.\<close>

definition exceeds :: "rat \<Rightarrow> int option \<Rightarrow> bool" where
  "exceeds idle duration_seconds =
     (case duration_seconds of None \<Rightarrow> False | Some d \<Rightarrow> idle > of_int d)"

text \<open>
  One iteration of the loop of \<^verbatim>\<open>_keep_warm_monitor\<close>, after its sleep of 60 seconds,
  at the time \<open>current_time\<close>.
\<close>

definition models_to_unload :: "rat \<Rightarrow> server \<Rightarrow> string list" where
  "models_to_unload current_time srv =
     filter (\<lambda>model_id. exceeds (idle_time current_time srv model_id)
                          (get_duration_seconds (keep_warm_duration srv)))
       (loaded_models srv)"

definition keep_warm_tick :: "rat \<Rightarrow> server \<Rightarrow> server" where
  "keep_warm_tick current_time srv =
     (if \<not> keep_warm_enabled srv then srv
      else if keep_warm_duration srv = ''permanent'' then srv
      else foldl (\<lambda>s model_id. unload_model model_id s) srv
             (models_to_unload current_time srv))"

text \<open>\<^verbatim>\<open>send_status\<close> and \<^verbatim>\<open>handle_clear_cache\<close>.\<close>

definition send_status :: "env \<Rightarrow> nat \<Rightarrow> server \<Rightarrow> server" where
  "send_status ev ws srv =
     send ws (Ready (length (loaded_models srv) > 0) (MODEL_PARAKEET \<in> set (loaded_models srv))
                (WHISPER_AVAILABLE ev) (default_model srv) (loaded_models srv)) srv"

definition handle_clear_cache :: "env \<Rightarrow> nat \<Rightarrow> server \<Rightarrow> server" where
  "handle_clear_cache ev ws srv =
     (let srv1 = (case map_of (engines srv) MODEL_PARAKEET of
                    None \<Rightarrow> srv
                  | Some r \<Rightarrow>
                      srv\<lparr>heap := (heap srv)(r := unload (heap srv r)),
                          calls := calls srv @ [CallUnload r],
                          engines := dict_del MODEL_PARAKEET (engines srv),
                          loaded_models := removeAll MODEL_PARAKEET (loaded_models srv)\<rparr>);
          srv2 = (if default_model srv1 = MODEL_PARAKEET
                  then (if engines srv1 \<noteq> []
                        then srv1\<lparr>default_model := fst (hd (engines srv1))\<rparr>
                        else srv1)
                  else srv1)
      in send_status ev ws srv2)"

text \<open>The keys of \<open>engines\<close> and the set \<open>loaded_models\<close> name the same models.\<close>

definition engines_in_sync :: "server \<Rightarrow> bool" where
  "engines_in_sync srv =
     (set (map fst (engines srv)) = set (loaded_models srv) \<and>
      distinct (map fst (engines srv)) \<and> distinct (loaded_models srv))"

text \<open>The server states that loading, unloading, cache clearing and monitor ticks reach.\<close>

inductive reachable :: "env \<Rightarrow> server \<Rightarrow> bool" for ev :: env where
  r_init: "reachable ev init_server"
| r_load: "reachable ev srv \<Longrightarrow> load_model ev model_id srv = Inr srv' \<Longrightarrow> reachable ev srv'"
| r_unload: "reachable ev srv \<Longrightarrow> reachable ev (unload_model model_id srv)"
| r_tick: "reachable ev srv \<Longrightarrow> reachable ev (keep_warm_tick now srv)"
| r_clear: "reachable ev srv \<Longrightarrow> reachable ev (handle_clear_cache ev ws srv)"
| r_keep_warm: "reachable ev srv \<Longrightarrow>
     reachable ev (srv\<lparr>keep_warm_models := remdups models,
                        keep_warm_enabled := (length models > 0),
                        keep_warm_duration := d\<rparr>)"
| r_inference: "reachable ev srv \<Longrightarrow>
     reachable ev (srv\<lparr>last_inference_time := (last_inference_time srv)(model_id \<mapsto> now)\<rparr>)"
| r_connect: "reachable ev srv \<Longrightarrow> reachable ev (srv\<lparr>clients := set_add ws (clients srv)\<rparr>)"

section \<open>Message handlers (main.py)\<close>

definition context_seconds :: rat where
  "context_seconds = 2"

text \<open>Cancelling the audio watchdog, if there is one that is not done.\<close>

definition cancel_watchdog :: "session \<Rightarrow> session" where
  "cancel_watchdog s =
     (case audio_watchdog_task s of
        None \<Rightarrow> s
      | Some t \<Rightarrow> if \<not> task_done t then s\<lparr>audio_watchdog_task := Some (task_cancel t)\<rparr> else s)"

text \<open>
  \<^verbatim>\<open>if session.active_model: self.last_inference_time[session.active_model] = time.time()\<close>:
  \<open>None\<close> and the empty string are falsy.
\<close>

definition record_inference :: "rat \<Rightarrow> session \<Rightarrow> server \<Rightarrow> server" where
  "record_inference now s srv =
     (case active_model s of
        None \<Rightarrow> srv
      | Some m \<Rightarrow>
          if m = [] then srv
          else srv\<lparr>last_inference_time := (last_inference_time srv)(m \<mapsto> now)\<rparr>)"

text \<open>\<^verbatim>\<open>if session.active_engine: session.active_engine.end_session()\<close>.\<close>

definition call_end_session :: "session \<Rightarrow> server \<Rightarrow> server" where
  "call_end_session s srv =
     (case active_engine s of
        None \<Rightarrow> srv
      | Some r \<Rightarrow> srv\<lparr>heap := (heap srv)(r := end_session (heap srv r)),
                       calls := calls srv @ [CallEndSession r]\<rparr>)"

text \<open>
  \<^verbatim>\<open>handle_stop\<close>, at the time \<open>now\<close>. The engines catch their own exceptions, so the
  \<^verbatim>\<open>except\<close> branch of the handler is not reached; the \<^verbatim>\<open>finally\<close> block is the
  last two steps.
\<close>

definition handle_stop :: "env \<Rightarrow> rat \<Rightarrow> server \<Rightarrow> session \<Rightarrow> server \<times> session" where
  "handle_stop ev now srv s0 =
     (let s = cancel_watchdog s0 in
      if \<not> is_recording s then (srv, s)
      else
        let s1 = s\<lparr>is_recording := False\<rparr>;
            srv1 =
              (case (if total_samples s1 > 0 then active_engine s1 else None) of
                 Some r \<Rightarrow>
                   let audio_array = get_audio_array s1;
                       srv' = srv\<lparr>calls := calls srv @ [CallTranscribeFinal r]\<rparr>;
                       final_text = transcribe_final ev (heap srv' r) audio_array;
                       final_text' =
                         (if final_text = [] \<and> last_transcription (heap srv' r) \<noteq> []
                          then last_transcription (heap srv' r) else final_text)
                   in send (websocket s1) (Final final_text' 0 (ModelKey (active_model s1))) srv'
               | None \<Rightarrow> send (websocket s1) (Final [] 0 NoModelKey) srv);
            srv2 = record_inference now s1 srv1;
            s2 = clear_audio s1;
            srv3 = call_end_session s2 srv2
        in (srv3, s2))"

text \<open>
  The stages of \<^verbatim>\<open>handle_transcribe_interval\<close>. First the context skip: on every
  interval but the first, words that start in the carried-over context are dropped.
\<close>

definition context_skip :: "bool \<Rightarrow> word list \<Rightarrow> word list" where
  "context_skip done_first words =
     (if done_first \<and> words \<noteq> []
      then filter (\<lambda>w. word_start w \<ge> context_seconds - 1 / 2) words
      else words)"

text \<open>\<^verbatim>\<open>w.get("speaker", "Unknown")\<close>.\<close>

definition get_speaker :: "word \<Rightarrow> string" where
  "get_speaker w = (case speaker w of None \<Rightarrow> ''Unknown'' | Some l \<Rightarrow> l)"

text \<open>\<^verbatim>\<open>DiarizationEngine.diarize\<close>: the empty list unless the pipeline is loaded.\<close>

definition diarize :: "env \<Rightarrow> bool \<Rightarrow> sample list \<Rightarrow> segment list" where
  "diarize ev loaded audio = (if \<not> loaded then [] else diarize_segments ev audio)"

text \<open>
  The diarization stage: the words with their friendly speaker names, and the list of
  distinct names (\<^verbatim>\<open>list(set(...))\<close>, here in order of occurrence).
\<close>

definition apply_diarization ::
  "env \<Rightarrow> server \<Rightarrow> session \<Rightarrow> sample list \<Rightarrow> word list \<Rightarrow> (word list \<times> string list) \<times> server" where
  "apply_diarization ev srv s audio_array words =
     (if diarization_enabled s \<and> diarization_loaded srv = Some True \<and> words \<noteq> [] then
        let srv1 = srv\<lparr>calls := calls srv @ [CallDiarize]\<rparr>;
            segments = diarize ev True audio_array
        in if segments \<noteq> [] then
             let words1 = assign_speakers_to_words words segments;
                 raw_speakers = map get_speaker words1;
                 speaker_map = format_speakers raw_speakers;
                 words2 = map (\<lambda>w. w\<lparr>speaker :=
                             Some (case map_of speaker_map (get_speaker w) of
                                     Some n \<Rightarrow> n | None \<Rightarrow> get_speaker w)\<rparr>) words1;
                 speakers = remdups (map get_speaker words2)
             in ((words2, speakers), srv1)
           else ((words, []), srv1)
      else ((words, []), srv))"

text \<open>\<^verbatim>\<open>_format_with_speakers\<close>: consecutive words of one speaker form a paragraph.\<close>

fun format_loop :: "word list \<Rightarrow> string option \<Rightarrow> string list \<Rightarrow> string list" where
  "format_loop [] current_speaker result = result"
| "format_loop (w # ws) current_speaker result =
     (let spk = get_speaker w in
      if Some spk \<noteq> current_speaker
      then format_loop ws (Some spk)
             (result @ (if current_speaker \<noteq> None then [[CHR 10]] else [])
                @ [spk @ '': ''] @ [word_text w @ '' ''])
      else format_loop ws current_speaker (result @ [word_text w @ '' '']))"

definition format_with_speakers :: "word list \<Rightarrow> string" where
  "format_with_speakers words =
     (if words = [] then [] else py_strip (concat (format_loop words None [])))"

definition format_text :: "word list \<Rightarrow> string list \<Rightarrow> string" where
  "format_text words speakers =
     (if speakers \<noteq> [] \<and> length speakers > 1 then format_with_speakers words
      else py_strip (py_join '' '' (map word_text words)))"

text \<open>
  The words an engine with word timestamps contributes to an interval: its result, after
  the context skip.
\<close>

definition interval_words :: "env \<Rightarrow> server \<Rightarrow> session \<Rightarrow> engine_ref \<Rightarrow> word list" where
  "interval_words ev srv s r =
     context_skip (has_done_first_interval s)
       (transcribe_with_timestamps ev (heap srv r) (get_audio_array s))"

definition handle_transcribe_interval ::
  "env \<Rightarrow> rat \<Rightarrow> server \<Rightarrow> session \<Rightarrow> server \<times> session" where
  "handle_transcribe_interval ev now srv s =
     (if \<not> is_recording s then (srv, s)
      else
        case (if total_samples s = 0 then None else active_engine s) of
          None \<Rightarrow> (send (websocket s) (IntervalTranscription [] None False) srv, s)
        | Some r \<Rightarrow>
            let buffer_seconds = get_buffer_seconds s;
                min_buffer = context_seconds + 1
            in if buffer_seconds < min_buffer
               then (send (websocket s) (IntervalTranscription [] None False) srv, s)
               else
                 let audio_array = get_audio_array s;
                     (text, speakers, srv1) =
                       (if has_transcribe_with_timestamps (heap srv r) then
                          let srv' = srv\<lparr>calls := calls srv @ [CallTranscribeWithTimestamps r]\<rparr>;
                              words = interval_words ev srv' s r;
                              ((words', speakers), srv'') =
                                 apply_diarization ev srv' s audio_array words
                          in (format_text words' speakers, speakers, srv'')
                        else
                          let srv' = srv\<lparr>calls := calls srv @ [CallTranscribeFinal r]\<rparr>;
                              t = transcribe_final ev (heap srv' r) audio_array
                          in (if t \<noteq> [] then py_strip t else [], [], srv'));
                     srv2 = send (websocket s) (IntervalTranscription text (Some speakers) False) srv1;
                     s1 = s\<lparr>has_done_first_interval := True\<rparr>;
                     srv3 = record_inference now s1 srv2;
                     s2 = keep_audio_tail context_seconds s1
                 in (srv3, s2))"

section \<open>Example values\<close>

text \<open>
  Concrete collaborators and states, used to run the definitions: an environment where
  Whisper is installed and every load succeeds, whose timestamped transcription returns
  four words starting at 0.1, 1.0, 2.3 and 3.0 seconds.
\<close>

definition example_word :: "string \<Rightarrow> rat \<Rightarrow> rat \<Rightarrow> word" where
  "example_word t a b = \<lparr> word_text = t, word_start = a, word_end = b, speaker = None \<rparr>"

definition example_words :: "word list" where
  "example_words =
     [example_word ''one'' (1 / 10) (1 / 2), example_word ''two'' 1 (7 / 5),
      example_word ''three'' (23 / 10) (27 / 10), example_word ''four'' 3 (7 / 2)]"

definition example_env :: env where
  "example_env =
     \<lparr> asr_text = (\<lambda>_ _. ''one two three four''), asr_words = (\<lambda>_ _. example_words),
       diarize_segments = (\<lambda>_. []), model_path = None, load_ok = (\<lambda>_. True),
       WHISPER_AVAILABLE = True \<rparr>"

text \<open>The server after a client has connected and the Whisper model \<open>base\<close> was loaded.\<close>

definition example_server :: server where
  "example_server =
     set_first_default ''base''
       (install_engine WhisperEngine ''base'' (init_server\<lparr>clients := [1]\<rparr>))"

text \<open>
  A session of that client, recording with the engine of \<open>base\<close>, holding three seconds
  of audio, after its first interval.
\<close>

definition example_session :: session where
  "example_session =
     (new_session 1)\<lparr>is_recording := True, audio_chunks := [replicate 48000 0],
                     total_samples := 48000, active_engine := Some 0,
                     active_model := Some ''base'', has_done_first_interval := True,
                     audio_watchdog_task := Some Pending\<rparr>"





section \<open>The session buffer\<close>

lemma add_audio_total:
  "total_samples (snd (add_audio c s)) = total_samples s + (if fst (add_audio c s) then int (length c) else 0)"
  by (simp add: add_audio_def Let_def)

lemma add_audio_mono: "total_samples s \<le> total_samples (snd (add_audio c s))"
  by (simp add: add_audio_def Let_def)

lemma add_all_Cons:
  "add_all (c # cs) s =
     (fst (add_audio c s) # fst (add_all cs (snd (add_audio c s))),
      snd (add_all cs (snd (add_audio c s))))"
  by (simp add: Let_def split: prod.splits)

lemma add_all_mono: "total_samples s \<le> total_samples (snd (add_all cs s))"
proof (induction cs arbitrary: s)
  case Nil
  then show ?case by simp
next
  case (Cons c cs)
  have "total_samples s \<le> total_samples (snd (add_audio c s))" by (rule add_audio_mono)
  also have "\<dots> \<le> total_samples (snd (add_all cs (snd (add_audio c s))))" by (rule Cons.IH)
  finally show ?case by (simp only: add_all_Cons snd_conv)
qed

lemma add_all_total:
  "total_samples (snd (add_all cs s)) =
     total_samples s + (\<Sum>c\<leftarrow>accepted cs (fst (add_all cs s)). int (length c))"
proof (induction cs arbitrary: s)
  case Nil
  then show ?case by (simp add: accepted_def)
next
  case (Cons c cs)
  show ?case
    using Cons.IH [of "snd (add_audio c s)"] add_audio_total [of c s]
    by (simp add: add_all_Cons accepted_def del: add_all.simps)
qed

lemma add_audio_chunks:
  "audio_chunks (snd (add_audio c s)) = audio_chunks s @ (if fst (add_audio c s) then [c] else [])"
  by (simp add: add_audio_def Let_def)

lemma add_all_chunks:
  "audio_chunks (snd (add_all cs s)) = audio_chunks s @ accepted cs (fst (add_all cs s))"
proof (induction cs arbitrary: s)
  case Nil
  then show ?case by (simp add: accepted_def)
next
  case (Cons c cs)
  show ?case
    using Cons.IH [of "snd (add_audio c s)"] add_audio_chunks [of c s]
    by (simp add: add_all_Cons accepted_def del: add_all.simps)
qed

text \<open>
  Claim C2. A call of \<^verbatim>\<open>add_audio\<close> is accepted exactly when the running total plus
  the chunk length stays within \<open>MAX_BUFFER_SAMPLES\<close> (300 s of 16000 samples); an accepted
  call appends the chunk and adds its length to the total, a rejected call leaves the
  session unchanged. After a run of calls on a fresh session the total is the sum of the
  lengths of the accepted chunks, which are exactly the stored chunks. Once a chunk has
  been rejected, further calls never enlarge the remaining capacity, a later chunk is
  accepted only if it fits the remaining capacity, and no chunk at least as long as the
  rejected one is accepted.
\<close>

theorem add_audio_cap:
  "(fst (add_audio c s) \<longleftrightarrow> total_samples s + int (length c) \<le> MAX_BUFFER_SAMPLES) \<and>
   MAX_BUFFER_SAMPLES = 300 * 16000 \<and>
   (fst (add_audio c s) \<longrightarrow>
      snd (add_audio c s) = s\<lparr>audio_chunks := audio_chunks s @ [c],
                                total_samples := total_samples s + int (length c)\<rparr>) \<and>
   (\<not> fst (add_audio c s) \<longrightarrow> snd (add_audio c s) = s) \<and>
   total_samples (snd (add_all cs (new_session ws))) =
     (\<Sum>c\<leftarrow>accepted cs (fst (add_all cs (new_session ws))). int (length c)) \<and>
   audio_chunks (snd (add_all cs (new_session ws))) = accepted cs (fst (add_all cs (new_session ws))) \<and>
   (\<not> fst (add_audio c s) \<longrightarrow>
      remaining_capacity (snd (add_all ds s)) \<le> remaining_capacity s \<and>
      (\<forall>c'. fst (add_audio c' (snd (add_all ds s))) \<longleftrightarrow>
              int (length c') \<le> remaining_capacity (snd (add_all ds s))) \<and>
      (\<forall>c'. length c \<le> length c' \<longrightarrow> \<not> fst (add_audio c' (snd (add_all ds s)))))"
proof -
  have m: "total_samples s \<le> total_samples (snd (add_all ds s))" by (rule add_all_mono)
  have 1: "fst (add_audio c s) \<longleftrightarrow> total_samples s + int (length c) \<le> MAX_BUFFER_SAMPLES"
    by (simp add: add_audio_def Let_def)
  have 2: "MAX_BUFFER_SAMPLES = 300 * 16000"
    by (simp add: MAX_BUFFER_SAMPLES_def MAX_BUFFER_SECONDS_def)
  have 3: "fst (add_audio c s) \<longrightarrow>
      snd (add_audio c s) = s\<lparr>audio_chunks := audio_chunks s @ [c],
                                total_samples := total_samples s + int (length c)\<rparr>"
    by (simp add: add_audio_def Let_def)
  have 4: "\<not> fst (add_audio c s) \<longrightarrow> snd (add_audio c s) = s"
    by (simp add: add_audio_def Let_def)
  have 5: "total_samples (snd (add_all cs (new_session ws))) =
     (\<Sum>c\<leftarrow>accepted cs (fst (add_all cs (new_session ws))). int (length c))"
    using add_all_total [of cs "new_session ws"] by (simp add: new_session_def)
  have 6: "audio_chunks (snd (add_all cs (new_session ws))) = accepted cs (fst (add_all cs (new_session ws)))"
    using add_all_chunks [of cs "new_session ws"] by (simp add: new_session_def)
  have 7: "\<not> fst (add_audio c s) \<longrightarrow>
      remaining_capacity (snd (add_all ds s)) \<le> remaining_capacity s \<and>
      (\<forall>c'. fst (add_audio c' (snd (add_all ds s))) \<longleftrightarrow>
              int (length c') \<le> remaining_capacity (snd (add_all ds s))) \<and>
      (\<forall>c'. length c \<le> length c' \<longrightarrow> \<not> fst (add_audio c' (snd (add_all ds s))))"
    using m by (auto simp: add_audio_def Let_def remaining_capacity_def)
  from 1 2 3 4 5 6 7 show ?thesis by blast
qed

theorem add_audio_cap_witness:
  "\<not> fst (add_audio (replicate 4800001 0) (new_session 1)) \<and>
   \<not> fst (add_audio (replicate 4800001 0) (snd (add_all [[1, 2]] (new_session 1)))) \<and>
   fst (add_all [[1, 2], replicate 4800001 0, [3]] (new_session 1)) = [True, False, True] \<and>
   total_samples (snd (add_all [[1, 2], replicate 4800001 0, [3]] (new_session 1))) = 3"
  using add_audio_cap [of "replicate 4800001 0" "new_session 1" "[[1, 2], replicate 4800001 0, [3]]" 1 "[[1, 2]]"]
  by (simp add: add_audio_def new_session_def MAX_BUFFER_SAMPLES_def MAX_BUFFER_SECONDS_def accepted_def Let_def)

lemma length_concat_int: "int (length (concat xss)) = (\<Sum>a\<leftarrow>xss. int (length a))"
  by (induction xss) simp_all

lemma add_audio_consistent:
  "buffer_consistent s \<Longrightarrow> buffer_consistent (snd (add_audio c s))"
  by (simp add: buffer_consistent_def add_audio_def Let_def)

lemma clear_audio_consistent: "buffer_consistent (clear_audio s)"
  by (simp add: buffer_consistent_def clear_audio_def)

lemma keep_audio_tail_consistent:
  "buffer_consistent s \<Longrightarrow> buffer_consistent (keep_audio_tail seconds s)"
  by (simp add: buffer_consistent_def keep_audio_tail_def Let_def)

lemma apply_buffer_op_consistent:
  "buffer_consistent s \<Longrightarrow> buffer_consistent (apply_buffer_op p s)"
  by (cases p) (simp_all add: add_audio_consistent clear_audio_consistent keep_audio_tail_consistent)

lemma run_buffer_ops_consistent:
  "buffer_consistent s \<Longrightarrow> buffer_consistent (run_buffer_ops ops s)"
  unfolding run_buffer_ops_def
  by (induction ops arbitrary: s) (simp_all add: apply_buffer_op_consistent)

lemma new_session_consistent: "buffer_consistent (new_session ws)"
  by (simp add: buffer_consistent_def new_session_def)

text \<open>
  Claim C9. After any sequence of \<^verbatim>\<open>add_audio\<close>, \<^verbatim>\<open>clear_audio\<close> and
  \<^verbatim>\<open>keep_audio_tail\<close> operations on a fresh session, \<open>total_samples\<close> is the sum of
  the lengths of the arrays in \<open>audio_chunks\<close>, and \<^verbatim>\<open>get_buffer_seconds\<close> is that
  number divided by 16000.
\<close>

theorem session_buffer_invariant:
  "total_samples (run_buffer_ops ops (new_session ws)) =
     (\<Sum>a\<leftarrow>audio_chunks (run_buffer_ops ops (new_session ws)). int (length a)) \<and>
   get_buffer_seconds (run_buffer_ops ops (new_session ws)) =
     of_int (\<Sum>a\<leftarrow>audio_chunks (run_buffer_ops ops (new_session ws)). int (length a)) / 16000"
proof -
  have "buffer_consistent (run_buffer_ops ops (new_session ws))"
    by (rule run_buffer_ops_consistent [OF new_session_consistent])
  then have "total_samples (run_buffer_ops ops (new_session ws)) =
     (\<Sum>a\<leftarrow>audio_chunks (run_buffer_ops ops (new_session ws)). int (length a))"
    by (simp add: buffer_consistent_def)
  then show ?thesis by (simp add: get_buffer_seconds_def)
qed

lemma py_int_nonneg: "0 \<le> x \<Longrightarrow> py_int x = \<lfloor>x\<rfloor>"
  by (simp add: py_int_def)

lemma get_audio_array_concat: "get_audio_array s = concat (audio_chunks s)"
  by (simp add: get_audio_array_def)

text \<open>
  \<^verbatim>\<open>keep_audio_tail\<close>: a no-op on a buffer of at most \<open>seconds\<close>; a longer buffer is
  cut to its last \<open>int(16000 * seconds)\<close> samples when that number is at least 1; and
  applying it twice is applying it once.
\<close>

lemma keep_audio_tail_noop:
  assumes "0 < seconds" "get_buffer_seconds s \<le> seconds"
  shows "keep_audio_tail seconds s = s"
proof -
  have "of_int (total_samples s) \<le> 16000 * seconds"
    using assms(2) by (simp add: get_buffer_seconds_def field_simps)
  then have "total_samples s \<le> \<lfloor>16000 * seconds\<rfloor>" by (simp add: le_floor_iff)
  then show ?thesis using assms(1) by (simp add: keep_audio_tail_def py_int_nonneg)
qed

lemma keep_audio_tail_trims:
  assumes "buffer_consistent s" "seconds < get_buffer_seconds s" "1 \<le> py_int (16000 * seconds)"
  shows "audio_chunks (keep_audio_tail seconds s) =
           [drop (length (concat (audio_chunks s)) - nat (py_int (16000 * seconds))) (concat (audio_chunks s))]"
    and "total_samples (keep_audio_tail seconds s) = py_int (16000 * seconds)"
    and "total_samples (keep_audio_tail seconds s) < total_samples s"
    and "\<bar>of_int (total_samples (keep_audio_tail seconds s)) - 16000 * seconds\<bar> < 1"
proof -
  let ?k = "py_int (16000 * seconds)"
  have pos: "0 \<le> 16000 * seconds"
  proof (rule ccontr)
    assume "\<not> 0 \<le> 16000 * seconds"
    then have "16000 * seconds < 0" by simp
    moreover from this have "0 \<le> \<lfloor>- (16000 * seconds)\<rfloor>" by simp
    ultimately have "?k \<le> 0" by (simp add: py_int_def)
    with assms(3) show False by simp
  qed
  have k: "?k = \<lfloor>16000 * seconds\<rfloor>" using pos by (rule py_int_nonneg)
  have "16000 * seconds < of_int (total_samples s)"
    using assms(2) by (simp add: get_buffer_seconds_def field_simps)
  then have lt: "?k < total_samples s" unfolding k by (simp add: floor_less_iff)
  have len: "total_samples s = int (length (concat (audio_chunks s)))"
    using assms(1) by (simp add: buffer_consistent_def length_concat_int)
  have sl: "py_slice_from (concat (audio_chunks s)) (- ?k) =
        drop (length (concat (audio_chunks s)) - nat ?k) (concat (audio_chunks s))"
    using assms(3) lt len by (simp add: py_slice_from_def max_def nat_diff_distrib')
  show 1: "audio_chunks (keep_audio_tail seconds s) =
           [drop (length (concat (audio_chunks s)) - nat ?k) (concat (audio_chunks s))]"
    using lt sl by (simp add: keep_audio_tail_def Let_def get_audio_array_concat)
  show 2: "total_samples (keep_audio_tail seconds s) = ?k"
    using lt sl len assms(3) by (simp add: keep_audio_tail_def Let_def get_audio_array_concat)
  show "total_samples (keep_audio_tail seconds s) < total_samples s" using 2 lt by simp
  show "\<bar>of_int (total_samples (keep_audio_tail seconds s)) - 16000 * seconds\<bar> < 1"
    unfolding 2 k by linarith
qed

lemma keep_audio_tail_idem:
  assumes "buffer_consistent s" "0 \<le> seconds"
  shows "keep_audio_tail seconds (keep_audio_tail seconds s) = keep_audio_tail seconds s"
proof -
  let ?k = "py_int (16000 * seconds)"
  have k0: "0 \<le> ?k" using assms(2) by (simp add: py_int_def)
  have len: "total_samples s = int (length (concat (audio_chunks s)))"
    using assms(1) by (simp add: buffer_consistent_def length_concat_int)
  show ?thesis
  proof (cases "total_samples s \<le> ?k")
    case True
    then show ?thesis by (simp add: keep_audio_tail_def)
  next
    case False
    show ?thesis
    proof (cases "?k = 0")
      case True
      then show ?thesis using False len
        by (simp add: keep_audio_tail_def Let_def get_audio_array_def py_slice_from_def)
    next
      case False
      then have "1 \<le> ?k" using k0 by simp
      then show ?thesis using \<open>\<not> total_samples s \<le> ?k\<close> len
        by (simp add: keep_audio_tail_def Let_def get_audio_array_def py_slice_from_def max_def)
    qed
  qed
qed


section \<open>The model pool and the keep-warm monitor\<close>

lemma dict_del_keys: "map fst (dict_del k ps) = removeAll k (map fst ps)"
  by (induction ps) (auto simp: dict_del_def)


lemma notify_all_fields [simp]:
  "engines (notify_all m s) = engines s"
  "loaded_models (notify_all m s) = loaded_models s"
  "default_model (notify_all m s) = default_model s"
  "last_inference_time (notify_all m s) = last_inference_time s"
  "keep_warm_enabled (notify_all m s) = keep_warm_enabled s"
  "keep_warm_duration (notify_all m s) = keep_warm_duration s"
  "heap (notify_all m s) = heap s"
  "calls (notify_all m s) = calls s"
  "clients (notify_all m s) = clients s"
  by (simp_all add: notify_all_def)

lemma unload_model_engines: "engines (unload_model m s) = dict_del m (engines s)"
proof (cases "map_of (engines s) m")
  case None
  then have "m \<notin> fst ` set (engines s)" by (simp add: map_of_eq_None_iff)
  then have "dict_del m (engines s) = engines s"
    by (auto simp: dict_del_def filter_id_conv)
  then show ?thesis using None by (simp add: unload_model_def)
next
  case (Some r)
  then show ?thesis by (simp add: unload_model_def Let_def)
qed

lemma unload_model_loaded:
  "engines_in_sync s \<Longrightarrow> loaded_models (unload_model m s) = removeAll m (loaded_models s)"
proof (cases "map_of (engines s) m")
  case None
  assume "engines_in_sync s"
  with None have "m \<notin> set (loaded_models s)"
    by (auto simp: engines_in_sync_def map_of_eq_None_iff)
  then show ?thesis using None by (simp add: unload_model_def)
next
  case (Some r)
  then show ?thesis by (simp add: unload_model_def Let_def)
qed

lemma unload_model_sync:
  assumes "engines_in_sync s"
  shows "engines_in_sync (unload_model m s)"
proof -
  have a: "set (map fst (engines s)) = set (loaded_models s)"
    and b: "distinct (map fst (engines s))" and c: "distinct (loaded_models s)"
    using assms by (simp_all add: engines_in_sync_def)
  have "set (removeAll m (map fst (engines s))) = set (removeAll m (loaded_models s))"
    using a by simp
  moreover have "distinct (removeAll m (map fst (engines s)))" using b by (rule distinct_removeAll)
  moreover have "distinct (removeAll m (loaded_models s))" using c by (rule distinct_removeAll)
  ultimately show ?thesis
    unfolding engines_in_sync_def unload_model_engines unload_model_loaded [OF assms] dict_del_keys
    by blast
qed

lemma unload_model_flags [simp]:
  "keep_warm_enabled (unload_model m s) = keep_warm_enabled s"
  "keep_warm_duration (unload_model m s) = keep_warm_duration s"
  "clients (unload_model m s) = clients s"
  by (simp_all add: unload_model_def Let_def split: option.splits)

lemma unload_all:
  "engines_in_sync s \<Longrightarrow>
     engines_in_sync (foldl (\<lambda>s m. unload_model m s) s ms) \<and>
     loaded_models (foldl (\<lambda>s m. unload_model m s) s ms) = filter (\<lambda>x. x \<notin> set ms) (loaded_models s) \<and>
     engines (foldl (\<lambda>s m. unload_model m s) s ms) = filter (\<lambda>p. fst p \<notin> set ms) (engines s)"
proof (induction ms arbitrary: s)
  case Nil
  then show ?case by simp
next
  case (Cons m ms)
  have s: "engines_in_sync (unload_model m s)" using Cons.prems by (rule unload_model_sync)
  have l: "loaded_models (unload_model m s) = filter (\<lambda>x. x \<noteq> m) (loaded_models s)"
    using unload_model_loaded [OF Cons.prems, of m] by (simp add: removeAll_filter_not_eq) metis
  have e: "engines (unload_model m s) = filter (\<lambda>p. fst p \<noteq> m) (engines s)"
    by (simp add: unload_model_engines dict_del_def)
  have f1: "filter (\<lambda>x. x \<notin> set ms) (filter (\<lambda>x. x \<noteq> m) (loaded_models s)) =
            filter (\<lambda>x. x \<notin> set (m # ms)) (loaded_models s)"
    by (auto intro: filter_cong)
  have f2: "filter (\<lambda>p. fst p \<notin> set ms) (filter (\<lambda>p. fst p \<noteq> m) (engines s)) =
            filter (\<lambda>p. fst p \<notin> set (m # ms)) (engines s)"
    by (auto intro: filter_cong)
  show ?case using Cons.IH [OF s] unfolding l e f1 f2 by simp
qed

lemma dict_set_keys_fresh: "k \<notin> fst ` set ps \<Longrightarrow> map fst (dict_set k v ps) = map fst ps @ [k]"
  by (induction ps) auto

lemma install_engine_sync:
  assumes "engines_in_sync s" "m \<notin> set (loaded_models s)"
  shows "engines_in_sync (install_engine k m s)"
proof -
  have "m \<notin> fst ` set (engines s)" using assms by (auto simp: engines_in_sync_def)
  then have "map fst (dict_set m (next_ref s) (engines s)) = map fst (engines s) @ [m]"
    by (rule dict_set_keys_fresh)
  then show ?thesis using assms
    by (auto simp: engines_in_sync_def install_engine_def Let_def set_add_def)
qed

lemma set_first_default_sync: "engines_in_sync (set_first_default m s) = engines_in_sync s"
  by (simp add: engines_in_sync_def set_first_default_def)

lemma load_model_sync:
  assumes "engines_in_sync s" "load_model ev m s = Inr s'"
  shows "engines_in_sync s'"
  using assms
  by (auto simp: load_model_def set_first_default_sync install_engine_sync
      split: if_splits option.splits)

lemma keep_warm_tick_sync: "engines_in_sync s \<Longrightarrow> engines_in_sync (keep_warm_tick now s)"
  using unload_all [of s "models_to_unload now s"] by (simp add: keep_warm_tick_def)

lemma handle_clear_cache_engines:
  "engines (handle_clear_cache ev ws s) = dict_del MODEL_PARAKEET (engines s)"
proof (cases "map_of (engines s) MODEL_PARAKEET")
  case None
  then have "MODEL_PARAKEET \<notin> fst ` set (engines s)" by (simp add: map_of_eq_None_iff)
  then have "dict_del MODEL_PARAKEET (engines s) = engines s"
    by (force simp: dict_del_def filter_id_conv)
  then show ?thesis using None
    by (simp add: handle_clear_cache_def send_status_def send_def Let_def)
next
  case (Some r)
  then show ?thesis by (simp add: handle_clear_cache_def send_status_def send_def Let_def)
qed

lemma handle_clear_cache_loaded:
  "engines_in_sync s \<Longrightarrow>
     loaded_models (handle_clear_cache ev ws s) = removeAll MODEL_PARAKEET (loaded_models s)"
proof (cases "map_of (engines s) MODEL_PARAKEET")
  case None
  assume "engines_in_sync s"
  with None have "MODEL_PARAKEET \<notin> set (loaded_models s)"
    by (auto simp: engines_in_sync_def map_of_eq_None_iff)
  then show ?thesis using None
    by (simp add: handle_clear_cache_def send_status_def send_def Let_def)
next
  case (Some r)
  then show ?thesis by (simp add: handle_clear_cache_def send_status_def send_def Let_def)
qed

lemma handle_clear_cache_sync:
  assumes "engines_in_sync s"
  shows "engines_in_sync (handle_clear_cache ev ws s)"
proof -
  have a: "set (map fst (engines s)) = set (loaded_models s)"
    and b: "distinct (map fst (engines s))" and c: "distinct (loaded_models s)"
    using assms by (simp_all add: engines_in_sync_def)
  have "set (removeAll MODEL_PARAKEET (map fst (engines s))) = set (removeAll MODEL_PARAKEET (loaded_models s))"
    using a by simp
  moreover have "distinct (removeAll MODEL_PARAKEET (map fst (engines s)))"
    using b by (rule distinct_removeAll)
  moreover have "distinct (removeAll MODEL_PARAKEET (loaded_models s))"
    using c by (rule distinct_removeAll)
  ultimately show ?thesis
    unfolding engines_in_sync_def handle_clear_cache_engines handle_clear_cache_loaded [OF assms]
      dict_del_keys
    by blast
qed

lemma reachable_in_sync: "reachable ev s \<Longrightarrow> engines_in_sync s"
proof (induction rule: reachable.induct)
  case r_init
  show ?case by (simp add: engines_in_sync_def init_server_def)
next
  case (r_load srv model_id srv')
  then show ?case by (auto intro: load_model_sync)
next
  case (r_unload srv model_id)
  then show ?case by (simp add: unload_model_sync)
next
  case (r_tick srv now)
  then show ?case by (simp add: keep_warm_tick_sync)
next
  case (r_clear srv ws)
  then show ?case by (simp add: handle_clear_cache_sync)
next
  case (r_keep_warm srv models d)
  then show ?case by (simp add: engines_in_sync_def)
next
  case (r_inference srv model_id now)
  then show ?case by (simp add: engines_in_sync_def)
next
  case (r_connect srv ws)
  then show ?case by (simp add: engines_in_sync_def)
qed

















section \<open>Stopping a recording\<close>

lemma cancel_watchdog_fields [simp]:
  "is_recording (cancel_watchdog s) = is_recording s"
  "audio_chunks (cancel_watchdog s) = audio_chunks s"
  "total_samples (cancel_watchdog s) = total_samples s"
  "active_engine (cancel_watchdog s) = active_engine s"
  "active_model (cancel_watchdog s) = active_model s"
  "has_done_first_interval (cancel_watchdog s) = has_done_first_interval s"
  "websocket (cancel_watchdog s) = websocket s"
  by (simp_all add: cancel_watchdog_def split: option.splits)

lemma cancel_watchdog_only_task:
  "cancel_watchdog s = s\<lparr>audio_watchdog_task := audio_watchdog_task (cancel_watchdog s)\<rparr>"
  by (simp add: cancel_watchdog_def split: option.splits)

lemma record_inference_trace [simp]:
  "sent (record_inference now s srv) = sent srv"
  "calls (record_inference now s srv) = calls srv"
  "heap (record_inference now s srv) = heap srv"
  by (simp_all add: record_inference_def split: option.splits)

text \<open>
  Claim C10. \<^verbatim>\<open>handle_stop\<close> on a session that is not recording leaves the server as
  it is, so no message is sent and no engine method is called, and changes nothing in the
  session but the watchdog task: the audio buffer, the sample count, the recording flag,
  the interval flag and the engine binding stay, and a watchdog task that is not done has
  its cancellation requested.
\<close>

theorem handle_stop_not_recording:
  assumes "\<not> is_recording s"
  shows "fst (handle_stop ev now srv s) = srv \<and>
         sent (fst (handle_stop ev now srv s)) = sent srv \<and>
         calls (fst (handle_stop ev now srv s)) = calls srv \<and>
         snd (handle_stop ev now srv s) = s\<lparr>audio_watchdog_task := audio_watchdog_task (snd (handle_stop ev now srv s))\<rparr> \<and>
         audio_chunks (snd (handle_stop ev now srv s)) = audio_chunks s \<and>
         total_samples (snd (handle_stop ev now srv s)) = total_samples s \<and>
         is_recording (snd (handle_stop ev now srv s)) = is_recording s \<and>
         has_done_first_interval (snd (handle_stop ev now srv s)) = has_done_first_interval s \<and>
         active_engine (snd (handle_stop ev now srv s)) = active_engine s \<and>
         active_model (snd (handle_stop ev now srv s)) = active_model s \<and>
         audio_watchdog_task (snd (handle_stop ev now srv s)) =
           (case audio_watchdog_task s of
              None \<Rightarrow> None
            | Some t \<Rightarrow> if t = Finished then Some Finished else Some CancelRequested)"
proof -
  have h: "handle_stop ev now srv s = (srv, cancel_watchdog s)"
    using assms by (simp add: handle_stop_def Let_def)
  have t: "audio_watchdog_task (cancel_watchdog s) =
           (case audio_watchdog_task s of
              None \<Rightarrow> None
            | Some t \<Rightarrow> if t = Finished then Some Finished else Some CancelRequested)"
    by (simp add: cancel_watchdog_def task_done_def task_cancel_def split: option.splits)
  show ?thesis unfolding h fst_conv snd_conv
    using cancel_watchdog_only_task [of s] t by simp
qed

text \<open>
  The example session, with recording switched off and a pending watchdog.
\<close>

theorem handle_stop_not_recording_witness:
  "\<not> is_recording (example_session\<lparr>is_recording := False\<rparr>) \<and>
   handle_stop example_env 7 example_server (example_session\<lparr>is_recording := False\<rparr>) =
     (example_server, example_session\<lparr>is_recording := False, audio_watchdog_task := Some CancelRequested\<rparr>)"
proof -
  have a: "\<not> is_recording (example_session\<lparr>is_recording := False\<rparr>)" by simp
  have t: "audio_watchdog_task (example_session\<lparr>is_recording := False\<rparr>) = Some Pending"
    by (simp add: example_session_def)
  note w = handle_stop_not_recording [OF a, of example_env 7 example_server]
  let ?r = "handle_stop example_env 7 example_server (example_session\<lparr>is_recording := False\<rparr>)"
  have k: "audio_watchdog_task (snd ?r) = Some CancelRequested"
    using w t by simp
  have "snd ?r = example_session\<lparr>is_recording := False,
                    audio_watchdog_task := audio_watchdog_task (snd ?r)\<rparr>"
    using w by blast
  also have "\<dots> = example_session\<lparr>is_recording := False,
                    audio_watchdog_task := Some CancelRequested\<rparr>"
    by (simp only: k)
  finally have "snd ?r = example_session\<lparr>is_recording := False,
                    audio_watchdog_task := Some CancelRequested\<rparr>" .
  moreover have "fst (handle_stop example_env 7 example_server (example_session\<lparr>is_recording := False\<rparr>)) = example_server"
    using w by blast
  ultimately show ?thesis using a by (simp add: prod_eq_iff)
qed

text \<open>
  Claim C7, as amended. \<^verbatim>\<open>handle_stop\<close> on a recording session with zero buffered
  samples sends exactly one message, \<^verbatim>\<open>final\<close> with the empty text and timestamp 0, and
  calls no transcription method: the only engine call is \<^verbatim>\<open>end_session\<close> on the bound
  engine, if there is one. The session stops recording with an empty buffer.
\<close>

theorem handle_stop_empty_buffer:
  assumes "is_recording s" "total_samples s = 0"
  shows "sent (fst (handle_stop ev now srv s)) = sent srv @ [(websocket s, Final [] 0 NoModelKey)] \<and>
         calls (fst (handle_stop ev now srv s)) =
           calls srv @ (case active_engine s of None \<Rightarrow> [] | Some r \<Rightarrow> [CallEndSession r]) \<and>
         filter is_transcription_call (calls (fst (handle_stop ev now srv s))) =
           filter is_transcription_call (calls srv) \<and>
         \<not> is_recording (snd (handle_stop ev now srv s)) \<and>
         total_samples (snd (handle_stop ev now srv s)) = 0"
proof -
  have 1: "sent (fst (handle_stop ev now srv s)) = sent srv @ [(websocket s, Final [] 0 NoModelKey)]"
    using assms
    by (simp add: handle_stop_def Let_def send_def call_end_session_def clear_audio_def
        split: option.splits)
  have 2: "calls (fst (handle_stop ev now srv s)) =
           calls srv @ (case active_engine s of None \<Rightarrow> [] | Some r \<Rightarrow> [CallEndSession r])"
    using assms
    by (simp add: handle_stop_def Let_def send_def call_end_session_def clear_audio_def
        split: option.splits)
  have 3: "filter is_transcription_call (calls (fst (handle_stop ev now srv s))) =
           filter is_transcription_call (calls srv)"
    unfolding 2 by (simp add: is_transcription_call_def split: option.splits)
  have 4: "\<not> is_recording (snd (handle_stop ev now srv s)) \<and>
         total_samples (snd (handle_stop ev now srv s)) = 0"
    using assms by (simp add: handle_stop_def Let_def clear_audio_def)
  from 1 2 3 4 show ?thesis by blast
qed

text \<open>
  Claim C7 as stated fails for a session that is not recording: a fresh session has zero
  buffered samples, and \<^verbatim>\<open>handle_stop\<close> sends nothing.
\<close>

theorem handle_stop_empty_buffer_counterexample:
  "total_samples (new_session 1) = 0 \<and>
   sent (fst (handle_stop example_env 7 example_server (new_session 1))) = [] \<and>
   handle_stop example_env 7 example_server (new_session 1) = (example_server, new_session 1)"
  by (simp add: handle_stop_def new_session_def cancel_watchdog_def Let_def example_server_def
      init_server_def install_engine_def set_first_default_def)

text \<open>
  The example session with its buffer cleared: one \<^verbatim>\<open>final\<close> message, one call of
  \<^verbatim>\<open>end_session\<close>.
\<close>

theorem handle_stop_empty_buffer_witness:
  "is_recording (clear_audio example_session) \<and> total_samples (clear_audio example_session) = 0 \<and>
   sent (fst (handle_stop example_env 7 example_server (clear_audio example_session))) =
     [(1, Final [] 0 NoModelKey)] \<and>
   calls (fst (handle_stop example_env 7 example_server (clear_audio example_session))) =
     [CallEndSession 0]"
proof -
  have a: "is_recording (clear_audio example_session)"
    by (simp add: clear_audio_def example_session_def)
  have b: "total_samples (clear_audio example_session) = 0" by (simp add: clear_audio_def)
  have c: "sent example_server = []" "calls example_server = []"
    by (simp_all add: example_server_def init_server_def install_engine_def
        set_first_default_def Let_def)
  have d: "websocket (clear_audio example_session) = 1"
    "active_engine (clear_audio example_session) = Some 0"
    by (simp_all add: clear_audio_def example_session_def new_session_def)
  from handle_stop_empty_buffer [OF a b, of example_env 7 example_server] a b
  show ?thesis by (simp add: c d)
qed

section \<open>Interval transcription\<close>

lemma apply_diarization_sent [simp]:
  "sent (snd (apply_diarization ev srv s audio ws)) = sent srv"
  by (simp add: apply_diarization_def Let_def)

lemma context_skip_filter:
  "context_skip done_first ws = (if done_first then filter (\<lambda>w. 3 / 2 \<le> word_start w) ws else ws)"
proof -
  have "context_seconds - 1 / 2 = 3 / 2" by (simp add: context_seconds_def)
  then have "context_skip done_first ws =
      (if done_first \<and> ws \<noteq> [] then filter (\<lambda>w. 3 / 2 \<le> word_start w) ws else ws)"
    unfolding context_skip_def by (simp only:)
  then show ?thesis by (cases ws) simp_all
qed

text \<open>
  Claim C1. When \<^verbatim>\<open>handle_transcribe_interval\<close> reaches an engine with word
  timestamps (the session is recording, holds at least three seconds of audio and is bound
  to such an engine), the words of the interval are the engine's words that start at 1.5
  seconds or later if the session has completed its first interval, and all of the
  engine's words on the first interval. The text of the message is assembled from these
  words: through the diarization stage in general, and as the stripped, space-joined word
  texts when diarization is off. Afterwards the session has completed its first interval.
\<close>

theorem interval_context_skip:
  assumes "is_recording s" "total_samples s \<noteq> 0" "active_engine s = Some r"
    "has_transcribe_with_timestamps (heap srv r)" "context_seconds + 1 \<le> get_buffer_seconds s"
  shows "interval_words ev srv s r =
           (if has_done_first_interval s
            then filter (\<lambda>w. 3 / 2 \<le> word_start w)
                   (transcribe_with_timestamps ev (heap srv r) (get_audio_array s))
            else transcribe_with_timestamps ev (heap srv r) (get_audio_array s)) \<and>
         sent (fst (handle_transcribe_interval ev now srv s)) =
           sent srv @
           [(websocket s,
             IntervalTranscription
               (format_text
                  (fst (fst (apply_diarization ev (srv\<lparr>calls := calls srv @ [CallTranscribeWithTimestamps r]\<rparr>)
                               s (get_audio_array s) (interval_words ev srv s r))))
                  (snd (fst (apply_diarization ev (srv\<lparr>calls := calls srv @ [CallTranscribeWithTimestamps r]\<rparr>)
                               s (get_audio_array s) (interval_words ev srv s r)))))
               (Some (snd (fst (apply_diarization ev (srv\<lparr>calls := calls srv @ [CallTranscribeWithTimestamps r]\<rparr>)
                               s (get_audio_array s) (interval_words ev srv s r)))))
               False)] \<and>
         (\<not> diarization_enabled s \<longrightarrow>
            sent (fst (handle_transcribe_interval ev now srv s)) =
              sent srv @
              [(websocket s,
                IntervalTranscription
                  (py_strip (py_join '' '' (map word_text (interval_words ev srv s r))))
                  (Some []) False)]) \<and>
         has_done_first_interval (snd (handle_transcribe_interval ev now srv s))"
proof -
  let ?srv' = "srv\<lparr>calls := calls srv @ [CallTranscribeWithTimestamps r]\<rparr>"
  let ?D = "apply_diarization ev ?srv' s (get_audio_array s) (interval_words ev srv s r)"
  have iw: "interval_words ev ?srv' s r = interval_words ev srv s r"
    by (simp add: interval_words_def)
  have nb: "\<not> get_buffer_seconds s < context_seconds + 1" using assms(5) by simp
  have 1: "interval_words ev srv s r =
           (if has_done_first_interval s
            then filter (\<lambda>w. 3 / 2 \<le> word_start w)
                   (transcribe_with_timestamps ev (heap srv r) (get_audio_array s))
            else transcribe_with_timestamps ev (heap srv r) (get_audio_array s))"
    by (simp add: interval_words_def context_skip_filter)
  have h: "handle_transcribe_interval ev now srv s =
     (record_inference now (s\<lparr>has_done_first_interval := True\<rparr>)
        (send (websocket s)
           (IntervalTranscription (format_text (fst (fst ?D)) (snd (fst ?D))) (Some (snd (fst ?D))) False)
           (snd ?D)),
      keep_audio_tail context_seconds (s\<lparr>has_done_first_interval := True\<rparr>))"
    using assms(1-4) nb
    by (simp add: handle_transcribe_interval_def Let_def iw split_beta)
  have 2: "sent (fst (handle_transcribe_interval ev now srv s)) =
           sent srv @
           [(websocket s,
             IntervalTranscription (format_text (fst (fst ?D)) (snd (fst ?D))) (Some (snd (fst ?D))) False)]"
    unfolding h by (simp add: send_def)
  have 3: "\<not> diarization_enabled s \<longrightarrow>
            sent (fst (handle_transcribe_interval ev now srv s)) =
              sent srv @
              [(websocket s,
                IntervalTranscription
                  (py_strip (py_join '' '' (map word_text (interval_words ev srv s r))))
                  (Some []) False)]"
    unfolding 2 by (simp add: apply_diarization_def format_text_def)
  have 4: "has_done_first_interval (snd (handle_transcribe_interval ev now srv s))"
    unfolding h by (simp add: keep_audio_tail_def Let_def)
  from 1 2 3 4 show ?thesis by blast
qed

lemma example_interval_words:
  "filter (\<lambda>w. 3 / 2 \<le> word_start w) example_words =
     [example_word ''three'' (23 / 10) (27 / 10), example_word ''four'' 3 (7 / 2)]"
  by (simp add: example_words_def example_word_def)

text \<open>
  The example of the specification: of the words starting at 0.1, 1.0, 2.3 and 3.0
  seconds, a later interval keeps the last two.
\<close>

theorem interval_context_skip_witness:
  "is_recording example_session \<and> total_samples example_session \<noteq> 0 \<and>
   active_engine example_session = Some 0 \<and>
   has_transcribe_with_timestamps (heap example_server 0) \<and>
   context_seconds + 1 \<le> get_buffer_seconds example_session \<and>
   has_done_first_interval example_session \<and>
   transcribe_with_timestamps example_env (heap example_server 0) (get_audio_array example_session) =
     example_words \<and>
   map word_start example_words = [1 / 10, 1, 23 / 10, 3] \<and>
   interval_words example_env example_server example_session 0 =
     [example_word ''three'' (23 / 10) (27 / 10), example_word ''four'' 3 (7 / 2)] \<and>
   sent (fst (handle_transcribe_interval example_env 7 example_server example_session)) =
     [(1, IntervalTranscription ''three four'' (Some []) False)]"
proof -
  have a: "is_recording example_session" "total_samples example_session \<noteq> 0"
    "active_engine example_session = Some 0" "has_done_first_interval example_session"
    "\<not> diarization_enabled example_session" "websocket example_session = 1"
    by (simp_all add: example_session_def new_session_def)
  have e: "heap example_server 0 =
      (new_engine WhisperEngine ''base'')\<lparr>model_present := True, is_loaded := True\<rparr>"
    "sent example_server = []"
    by (simp_all add: example_server_def init_server_def install_engine_def
        set_first_default_def Let_def)
  have b: "has_transcribe_with_timestamps (heap example_server 0)"
    by (simp add: e has_transcribe_with_timestamps_def new_engine_def)
  have c: "context_seconds + 1 \<le> get_buffer_seconds example_session"
    by (simp add: context_seconds_def get_buffer_seconds_def example_session_def)
  have d: "transcribe_with_timestamps example_env (heap example_server 0)
      (get_audio_array example_session) = example_words"
    by (simp add: e transcribe_with_timestamps_def new_engine_def get_audio_array_def
        example_session_def example_env_def)
  have f: "map word_start example_words = [1 / 10, 1, 23 / 10, 3]"
    by (simp add: example_words_def example_word_def)
  note w = interval_context_skip [OF a(1) a(2) a(3) b c, of example_env 7]
  have g: "interval_words example_env example_server example_session 0 =
     [example_word ''three'' (23 / 10) (27 / 10), example_word ''four'' 3 (7 / 2)]"
    using w a(4) d example_interval_words by simp
  have t: "py_strip (py_join '' '' (map word_text
      [example_word ''three'' (23 / 10) (27 / 10), example_word ''four'' 3 (7 / 2)])) = ''three four''"
    by (simp add: example_word_def py_strip_def is_py_space_def)
  from w a(5)
  have "sent (fst (handle_transcribe_interval example_env 7 example_server example_session)) =
      sent example_server @
      [(websocket example_session,
        IntervalTranscription
          (py_strip (py_join '' '' (map word_text
             (interval_words example_env example_server example_session 0))))
          (Some []) False)]"
    by blast
  then have "sent (fst (handle_transcribe_interval example_env 7 example_server example_session)) =
     [(1, IntervalTranscription ''three four'' (Some []) False)]"
    unfolding g t e a(6) by simp
  with a b c d f g show ?thesis by blast
qed

section \<open>Speaker assignment\<close>



lemma first_max_overlap_Nil: "first_max_overlap w segs = None \<longleftrightarrow> segs = []"
  by (cases segs) (auto split: option.splits)









section \<open>Speaker names\<close>

lemma format_speakers_zip:
  "format_speakers speakers =
     zip (sorted_list_of_set (set speakers))
         (map (\<lambda>i. ''Speaker '' @ str_nat (i + 1)) [0..<length (sorted_list_of_set (set speakers))])"
proof -
  have "map (\<lambda>(i, label). (label, f i)) (enumerate 0 us) = zip us (map f [0..<length us])"
    for us :: "string list" and f :: "nat \<Rightarrow> string"
    by (simp add: enumerate_eq_zip zip_map2 zip_commute [of us] case_prod_beta' comp_def)
  then show ?thesis
    by (simp add: format_speakers_def Let_def sorted_list_of_set_sort_remdups)
qed

lemma digit_char_inj: "a < 10 \<Longrightarrow> b < 10 \<Longrightarrow> digit_char a = digit_char b \<Longrightarrow> a = b"
proof -
  assume a: "a < 10" and b: "b < 10" and e: "digit_char a = digit_char b"
  from e have "of_char (char_of (48 + a)) = (of_char (char_of (48 + b)) :: nat)"
    by (simp add: digit_char_def)
  then have "(48 + a) mod 256 = (48 + b) mod 256" by (simp add: of_char_of)
  then show ?thesis using a b by simp
qed

lemma str_nat_nonempty: "str_nat n \<noteq> []"
  by (subst str_nat.simps) simp

lemma str_nat_inj: "str_nat n = str_nat m \<Longrightarrow> n = m"
proof (induction n arbitrary: m rule: less_induct)
  case (less n)
  show ?case
  proof (cases "n < 10")
    case True
    show ?thesis
    proof (cases "m < 10")
      case m: True
      from less.prems True m have "digit_char n = digit_char m"
        by (simp add: str_nat.simps [of n] str_nat.simps [of m])
      then show ?thesis using True m by (rule digit_char_inj [rotated 2])
    next
      case False
      with less.prems True have "[digit_char n] = str_nat (m div 10) @ [digit_char (m mod 10)]"
        by (simp add: str_nat.simps [of n] str_nat.simps [of m])
      then show ?thesis using str_nat_nonempty [of "m div 10"] by simp
    qed
  next
    case False
    show ?thesis
    proof (cases "m < 10")
      case True
      with less.prems False have "str_nat (n div 10) @ [digit_char (n mod 10)] = [digit_char m]"
        by (simp add: str_nat.simps [of n] str_nat.simps [of m])
      then show ?thesis using str_nat_nonempty [of "n div 10"] by simp
    next
      case m: False
      with less.prems False
      have e: "str_nat (n div 10) @ [digit_char (n mod 10)] = str_nat (m div 10) @ [digit_char (m mod 10)]"
        by (simp add: str_nat.simps [of n] str_nat.simps [of m])
      then have "str_nat (n div 10) = str_nat (m div 10)" and d: "digit_char (n mod 10) = digit_char (m mod 10)"
        by simp_all
      then have "n div 10 = m div 10" using less.IH [of "n div 10" "m div 10"] False by simp
      moreover have "n mod 10 = m mod 10" using d by (rule digit_char_inj [rotated 2]) simp_all
      ultimately show ?thesis by (metis div_mult_mod_eq)
    qed
  qed
qed

text \<open>
  Claim C6, as amended. \<^verbatim>\<open>format_speakers\<close> names the distinct labels in ascending
  (sorted) order: its keys are the sorted distinct labels, the label at position \<open>i\<close> of
  that order gets the name \<open>Speaker i+1\<close>, every label of the input gets a name, and
  different labels get different names.
\<close>

theorem format_speakers_sorted:
  "map fst (format_speakers speakers) = sorted_list_of_set (set speakers) \<and>
   (\<forall>i < length (sorted_list_of_set (set speakers)).
      map_of (format_speakers speakers) (sorted_list_of_set (set speakers) ! i) =
        Some (''Speaker '' @ str_nat (i + 1))) \<and>
   dom (map_of (format_speakers speakers)) = set speakers \<and>
   inj_on (map_of (format_speakers speakers)) (set speakers)"
proof -
  let ?keys = "sorted_list_of_set (set speakers)"
  let ?names = "map (\<lambda>i. ''Speaker '' @ str_nat (i + 1)) [0..<length ?keys]"
  have z: "format_speakers speakers = zip ?keys ?names" by (rule format_speakers_zip)
  have len: "length ?keys = length ?names" by simp
  have dk: "distinct ?keys" by simp
  have sk: "set ?keys = set speakers" by simp
  have 1: "map fst (format_speakers speakers) = ?keys"
    unfolding z using len by (simp del: sorted_list_of_set.set_sorted_key_list_of_set)
  have nth: "map_of (format_speakers speakers) (?keys ! i) = Some (''Speaker '' @ str_nat (i + 1))"
    if "i < length ?keys" for i
  proof -
    have "map_of (zip ?keys ?names) (?keys ! i) = Some (?names ! i)"
      using len dk that by (intro map_of_zip_nth) simp_all
    then show ?thesis unfolding z using that by simp
  qed
  have 3: "dom (map_of (format_speakers speakers)) = set speakers"
    using 1 sk by (simp add: dom_map_of_conv_image_fst del: sorted_list_of_set.set_sorted_key_list_of_set) (metis list.set_map sk 1)
  have 4: "inj_on (map_of (format_speakers speakers)) (set speakers)"
  proof (rule inj_onI)
    fix x y
    assume x: "x \<in> set speakers" and y: "y \<in> set speakers"
      and e: "map_of (format_speakers speakers) x = map_of (format_speakers speakers) y"
    from x sk obtain i where i: "i < length ?keys" "?keys ! i = x" by (metis in_set_conv_nth)
    from y sk obtain j where j: "j < length ?keys" "?keys ! j = y" by (metis in_set_conv_nth)
    from e nth [OF i(1)] nth [OF j(1)] i(2) j(2)
    have "str_nat (i + 1) = str_nat (j + 1)" by simp
    then have "i = j" using str_nat_inj by fastforce
    then show "x = y" using i(2) j(2) by simp
  qed
  from 1 nth 3 4 show ?thesis by blast
qed

text \<open>
  Claim C6 as stated fails: on the labels \<open>SPEAKER_01\<close>, \<open>SPEAKER_00\<close> the first-seen
  label \<open>SPEAKER_01\<close> is named \<open>Speaker 2\<close>, where the order of first occurrence would
  name it \<open>Speaker 1\<close>.
\<close>

theorem format_speakers_first_seen_counterexample:
  "format_speakers [''SPEAKER_01'', ''SPEAKER_00''] =
     [(''SPEAKER_00'', ''Speaker 1''), (''SPEAKER_01'', ''Speaker 2'')] \<and>
   spec_format_speakers [''SPEAKER_01'', ''SPEAKER_00''] =
     [(''SPEAKER_01'', ''Speaker 1''), (''SPEAKER_00'', ''Speaker 2'')] \<and>
   map_of (format_speakers [''SPEAKER_01'', ''SPEAKER_00'']) ''SPEAKER_01'' \<noteq>
   map_of (spec_format_speakers [''SPEAKER_01'', ''SPEAKER_00'']) ''SPEAKER_01''"
  by code_simp

text \<open>
  The second label in sorted order of an input with a repeated label.
\<close>

theorem format_speakers_sorted_witness:
  "(1::nat) < length (sorted_list_of_set (set [''SPEAKER_01'', ''SPEAKER_00'', ''SPEAKER_01''])) \<and>
   sorted_list_of_set (set [''SPEAKER_01'', ''SPEAKER_00'', ''SPEAKER_01'']) ! 1 = ''SPEAKER_01'' \<and>
   map_of (format_speakers [''SPEAKER_01'', ''SPEAKER_00'', ''SPEAKER_01'']) ''SPEAKER_01'' =
     Some ''Speaker 2''"
proof -
  let ?sp = "[''SPEAKER_01'', ''SPEAKER_00'', ''SPEAKER_01'']"
  have k: "sorted_list_of_set (set ?sp) = [''SPEAKER_00'', ''SPEAKER_01'']" by code_simp
  have a: "(1::nat) < length (sorted_list_of_set (set ?sp))" unfolding k by simp
  have b: "sorted_list_of_set (set ?sp) ! 1 = ''SPEAKER_01''" unfolding k by simp
  have n: "''Speaker '' @ str_nat (1 + 1) = ''Speaker 2''" by code_simp
  from format_speakers_sorted [of ?sp, THEN conjunct2, THEN conjunct1, rule_format, OF a]
  have "map_of (format_speakers ?sp) ''SPEAKER_01'' = Some ''Speaker 2''"
    unfolding b n .
  with a b show ?thesis by blast
qed

end
